theory Spec2Isabelle
  imports Main "HOL-Library.Word" "HOL-Library.Monad_Syntax"
begin

unbundle bit_operations_syntax

section \<open>ntfsvolume: the volume geometry reporter and its command line\<close>

text \<open>
  A shallow embedding of \<^verbatim>\<open>ntfsprogs/ntfsvolume.c\<close>: the routine \<^verbatim>\<open>info\<close> that prints
  the geometry of a mounted volume, the option parser \<^verbatim>\<open>parse_options\<close> and \<^verbatim>\<open>main\<close>.
  Everything the program writes goes through \<^verbatim>\<open>ntfs_log_info\<close> and \<^verbatim>\<open>ntfs_log_error\<close>;
  the model keeps the sequence of these calls, each with its format string and its
  arguments, as the program's output.
\<close>

subsection \<open>Machine integers and the C shift operators\<close>

type_synonym u8 = "8 word"
type_synonym u16 = "16 word"
type_synonym u32 = "32 word"
type_synonym u64 = "64 word"
type_synonym s64 = "64 word" \<comment> \<open>two's complement, read with \<^term>\<open>sint\<close>\<close>

text \<open>
  C evaluates \<^verbatim>\<open>a << n\<close> and \<^verbatim>\<open>a >> n\<close> at the promoted type of \<^verbatim>\<open>a\<close>, here the signed
  types \<^verbatim>\<open>int\<close> (32 bits) and \<^verbatim>\<open>s64\<close>. The operand is the word, the result the word
  with its bits shifted, or \<open>None\<close> where ISO C leaves the behaviour undefined: a
  shift count that is negative or not less than the width, and a left shift of a
  negative value or one whose result the signed type cannot hold. A right shift of a
  negative value is the arithmetic one (implementation-defined; what gcc and clang
  do).
\<close>

type_synonym c_int = "32 word" \<comment> \<open>two's complement, read with \<^term>\<open>sint\<close>\<close>

definition c_shl :: "'a::len word \<Rightarrow> int \<Rightarrow> 'a word option" where
  "c_shl a n =
     (if n < 0 \<or> int LENGTH('a) \<le> n \<or> sint a < 0 \<or> 2 ^ (LENGTH('a) - 1) \<le> sint a * 2 ^ nat n
      then None else Some (push_bit (nat n) a))"

definition c_shr :: "'a::len word \<Rightarrow> int \<Rightarrow> 'a word option" where
  "c_shr a n = (if n < 0 \<or> int LENGTH('a) \<le> n then None else Some (signed_drop_bit (nat n) a))"

subsection \<open>The logging sink\<close>

text \<open>
  A call has its format string and its arguments: a 64-bit value for \<^verbatim>\<open>%llu\<close>, a string
  for \<^verbatim>\<open>%s\<close>, or the name of a string constant that is defined outside the sources
  (\<^verbatim>\<open>VERSION\<close>, \<^verbatim>\<open>ntfs_gpl\<close>, \<^verbatim>\<open>ntfs_bugs\<close>, \<^verbatim>\<open>ntfs_home\<close>).
\<close>

datatype log_arg = Arg_u64 u64 | Arg_str string | Arg_extern string

datatype log_call = Log_info string "log_arg list" | Log_error string "log_arg list"

definition ntfs_log_info :: "string \<Rightarrow> log_arg list \<Rightarrow> log_call list \<Rightarrow> log_call list" where
  "ntfs_log_info fmt args out = out @ [Log_info fmt args]"

definition ntfs_log_error :: "string \<Rightarrow> log_arg list \<Rightarrow> log_call list \<Rightarrow> log_call list" where
  "ntfs_log_error fmt args out = out @ [Log_error fmt args]"

subsection \<open>The volume handle\<close>

text \<open>
  Modelled from the spec: the declarations of \<^verbatim>\<open>ntfs_volume\<close> and \<^verbatim>\<open>ntfs_attr\<close>
  (\<^verbatim>\<open>volume.h\<close>, \<^verbatim>\<open>attrib.h\<close>) are not among the sources. The record has the fields that
  \<^verbatim>\<open>info\<close> reads, the ones section 4.2 of the specification lists, with the widths of
  libntfs-3g: the sizes unsigned, the cluster count and the initialized size of the MFT
  data attribute signed 64-bit. A mounted volume always has its \<^verbatim>\<open>mft_na\<close> attribute
  open, so the pointer is modelled by the attribute itself.
\<close>

record ntfs_attr =
  initialized_size :: s64

record ntfs_volume =
  sector_size :: u16
  sector_size_bits :: u8
  cluster_size :: u32
  cluster_size_bits :: u8
  mft_record_size_bits :: u8
  nr_clusters :: s64
  mft_na :: ntfs_attr

subsection \<open>info\<close>

text \<open>
  \<^verbatim>\<open>info\<close> receives the handle by pointer and writes to the log: the model takes the
  handle and the output so far and returns the status, the handle and the output
  afterwards. The seven values are computed before the first line is printed, as in
  the source; \<^verbatim>\<open>c\<close> is computed as an \<^verbatim>\<open>int\<close> and converted to \<^verbatim>\<open>u64\<close> with its sign, the
  three others are shifts of \<^verbatim>\<open>s64\<close> values.
\<close>

definition info :: "ntfs_volume \<times> log_call list \<Rightarrow> (int \<times> ntfs_volume \<times> log_call list) option" where
  "info = (\<lambda>(vol, out). do {
     let cb = uint (cluster_size_bits vol);
     let sb = uint (sector_size_bits vol);
     let cps = cb - sb;
     let a = (ucast (sector_size vol) :: u64);
     let b = (ucast (cluster_size vol) :: u64);
     c \<leftarrow> map_option scast (c_shl (1 :: c_int) cps);
     d \<leftarrow> c_shl (nr_clusters vol) cb;
     let e = nr_clusters vol;
     f \<leftarrow> c_shr (nr_clusters vol) cps;
     g \<leftarrow> c_shr (initialized_size (mft_na vol)) (uint (mft_record_size_bits vol));
     let out = ntfs_log_info ''bytes per sector        : %llu\<newline>'' [Arg_u64 a] out;
     let out = ntfs_log_info ''bytes per cluster       : %llu\<newline>'' [Arg_u64 b] out;
     let out = ntfs_log_info ''sectors per cluster     : %llu\<newline>'' [Arg_u64 c] out;
     let out = ntfs_log_info ''bytes per volume        : %llu\<newline>'' [Arg_u64 d] out;
     let out = ntfs_log_info ''sectors per volume      : %llu\<newline>'' [Arg_u64 e] out;
     let out = ntfs_log_info ''clusters per volume     : %llu\<newline>'' [Arg_u64 f] out;
     let out = ntfs_log_info ''initialized mft records : %llu\<newline>'' [Arg_u64 g] out;
     Some (0, vol, out)
   })"

text \<open>
  The handles on which every shift of \<^verbatim>\<open>info\<close> is defined: the cluster is at least a
  sector and at most \<^verbatim>\<open>1 << 30\<close> sectors, the cluster count is not negative and the volume has
  fewer than \<^verbatim>\<open>1 << 63\<close> bytes, and the MFT record size exponent is below 64.
\<close>

definition valid_handle :: "ntfs_volume \<Rightarrow> bool" where
  "valid_handle vol =
     (uint (sector_size_bits vol) \<le> uint (cluster_size_bits vol) \<and>
      uint (cluster_size_bits vol) - uint (sector_size_bits vol) \<le> 30 \<and>
      uint (cluster_size_bits vol) < 64 \<and>
      0 \<le> sint (nr_clusters vol) \<and>
      sint (nr_clusters vol) * 2 ^ unat (cluster_size_bits vol) < 2 ^ 63 \<and>
      uint (mft_record_size_bits vol) < 64)"

text \<open>The seven values that \<^verbatim>\<open>info\<close> prints on such a handle, and the seven lines.\<close>

definition info_values :: "ntfs_volume \<Rightarrow> u64 list" where
  "info_values vol =
     [ucast (sector_size vol), ucast (cluster_size vol),
      word_of_int (2 ^ (unat (cluster_size_bits vol) - unat (sector_size_bits vol))),
      word_of_int (sint (nr_clusters vol) * 2 ^ unat (cluster_size_bits vol)),
      nr_clusters vol,
      word_of_int (sint (nr_clusters vol) div 2 ^ (unat (cluster_size_bits vol) - unat (sector_size_bits vol))),
      word_of_int (sint (initialized_size (mft_na vol)) div 2 ^ unat (mft_record_size_bits vol))]"

definition geometry_lines :: "u64 list \<Rightarrow> log_call list" where
  "geometry_lines vs =
     map2 (\<lambda>label v. Log_info (label @ '': %llu\<newline>'') [Arg_u64 v])
       [''bytes per sector        '', ''bytes per cluster       '', ''sectors per cluster     '',
        ''bytes per volume        '', ''sectors per volume      '', ''clusters per volume     '',
        ''initialized mft records ''] vs"

text \<open>The handle of the specification's worked example.\<close>

definition example_volume :: ntfs_volume where
  "example_volume =
     \<lparr>sector_size = 512, sector_size_bits = 9, cluster_size = 4096, cluster_size_bits = 12,
      mft_record_size_bits = 10, nr_clusters = 1000, mft_na = \<lparr>initialized_size = 65536\<rparr>\<rparr>"

subsection \<open>getopt_long\<close>

text \<open>
  \<^verbatim>\<open>getopt_long\<close> is the C library's. The model follows glibc for an option string
  that starts with \<^verbatim>\<open>-\<close>, the mode in which every non-option element of \<^verbatim>\<open>argv\<close> is
  returned in order with the code 1. Its state is \<^verbatim>\<open>optind\<close>, the index of the next
  element of \<^verbatim>\<open>argv\<close>, and \<^verbatim>\<open>nextchar\<close>, what is left of a group of short options;
  \<^verbatim>\<open>optarg\<close> is left out, the program never reads it. A long option matches a name
  exactly, or as an abbreviation that only one entry fits; every entry has a null
  \<^verbatim>\<open>flag\<close>. The element \<^verbatim>\<open>--\<close> ends the scan. An index past the end of \<^verbatim>\<open>argv\<close>,
  which \<^verbatim>\<open>optind\<close> never reaches, ends the scan as well. Option characters are
  returned as their codes, \<^term>\<open>of_char c :: int\<close>.
\<close>

record option_t =
  name :: string
  has_arg :: nat
  val :: int

record getopt_data =
  optind :: nat
  nextchar :: string

definition NONOPTION_P :: "string \<Rightarrow> bool" where
  "NONOPTION_P a = (case a of [] \<Rightarrow> True | c # r \<Rightarrow> c \<noteq> CHR ''-'' \<or> r = [])"

definition process_long_option ::
  "string list \<Rightarrow> string \<Rightarrow> option_t list \<Rightarrow> getopt_data \<Rightarrow> int \<times> getopt_data" where
  "process_long_option argv optstring longopts d =
     (let nm = takeWhile (\<lambda>x. x \<noteq> CHR ''='') (nextchar d);
          nameend = dropWhile (\<lambda>x. x \<noteq> CHR ''='') (nextchar d);
          exact = filter (\<lambda>p. name p = nm) longopts;
          abbrev = filter (\<lambda>p. take (length nm) (name p) = nm) longopts;
          ambig = (exact = [] \<and>
                   (\<exists>p \<in> set (tl abbrev). has_arg p \<noteq> has_arg (hd abbrev) \<or> val p \<noteq> val (hd abbrev)));
          d1 = d\<lparr>optind := optind d + 1, nextchar := []\<rparr>
      in if ambig then (of_char CHR ''?'', d1)
         else case (if exact \<noteq> [] then exact else abbrev) of
           [] \<Rightarrow> (of_char CHR ''?'', d1)
         | pfound # _ \<Rightarrow>
             if nameend \<noteq> [] then
               (if has_arg pfound \<noteq> 0 then (val pfound, d1) else (of_char CHR ''?'', d1))
             else if has_arg pfound = 1 then
               (if optind d1 < length argv then (val pfound, d1\<lparr>optind := optind d1 + 1\<rparr>)
                else (of_char (if take 1 optstring = '':'' then CHR '':'' else CHR ''?''), d1))
             else (val pfound, d1))"

definition getopt_short :: "string list \<Rightarrow> string \<Rightarrow> getopt_data \<Rightarrow> int \<times> getopt_data" where
  "getopt_short argv optstring d =
     (case nextchar d of
        [] \<Rightarrow> (of_char CHR ''?'', d)
      | c # rest \<Rightarrow>
         (let d1 = d\<lparr>optind := (if rest = [] then optind d + 1 else optind d), nextchar := rest\<rparr>;
              temp = dropWhile (\<lambda>x. x \<noteq> c) optstring
          in if temp = [] \<or> c = CHR '':'' \<or> c = CHR '';'' then (of_char CHR ''?'', d1)
             else if take 1 (tl temp) = '':'' then
               (if take 1 (tl (tl temp)) = '':'' then
                  (of_char c, (if rest \<noteq> [] then d1\<lparr>optind := optind d1 + 1\<rparr> else d1)\<lparr>nextchar := []\<rparr>)
                else if rest \<noteq> [] then (of_char c, d1\<lparr>optind := optind d1 + 1, nextchar := []\<rparr>)
                else if optind d1 = length argv then
                  (of_char (if take 1 optstring = '':'' then CHR '':'' else CHR ''?''), d1\<lparr>nextchar := []\<rparr>)
                else (of_char c, d1\<lparr>optind := optind d1 + 1, nextchar := []\<rparr>))
             else (of_char c, d1)))"

definition getopt_long ::
  "string list \<Rightarrow> string \<Rightarrow> option_t list \<Rightarrow> getopt_data \<Rightarrow> int \<times> getopt_data" where
  "getopt_long argv optstring longopts d =
     (let optstring = (if take 1 optstring = ''-'' then tl optstring else optstring) in
      if length argv < 1 then (- 1, d)
      else if nextchar d = [] then
        (if optind d < length argv \<and> argv ! optind d = ''--'' then (- 1, d\<lparr>optind := optind d + 1\<rparr>)
         else if length argv \<le> optind d then (- 1, d)
         else if NONOPTION_P (argv ! optind d) then (1, d\<lparr>optind := optind d + 1\<rparr>)
         else if take 1 (tl (argv ! optind d)) = ''-'' then
           process_long_option argv optstring longopts (d\<lparr>nextchar := drop 2 (argv ! optind d)\<rparr>)
         else getopt_short argv optstring (d\<lparr>nextchar := tl (argv ! optind d)\<rparr>))
      else getopt_short argv optstring d)"

definition sopt :: string where
  "sopt = ''-c:F:fh?I:ilqs:vV''"

definition lopt :: "option_t list" where
  "lopt =
     [\<lparr>name = ''force'', has_arg = 0, val = of_char CHR ''f''\<rparr>,
      \<lparr>name = ''help'', has_arg = 0, val = of_char CHR ''h''\<rparr>,
      \<lparr>name = ''quiet'', has_arg = 0, val = of_char CHR ''q''\<rparr>,
      \<lparr>name = ''verbose'', has_arg = 0, val = of_char CHR ''v''\<rparr>,
      \<lparr>name = ''version'', has_arg = 0, val = of_char CHR ''V''\<rparr>]"

definition todo :: "string list \<Rightarrow> getopt_data \<Rightarrow> nat" where
  "todo argv d =
     (if nextchar d = [] then (if optind d < length argv then length (argv ! optind d) else 0)
      else length (nextchar d))"

subsection \<open>Termination of the scan\<close>

text \<open>
  Every call that does not end the scan moves \<^verbatim>\<open>optind\<close> forward, or leaves it and
  shortens what is left of the current element, which \<open>todo\<close> measures.
\<close>

lemma getopt_short_step:
  "getopt_short argv os d = (c, d') \<Longrightarrow> nextchar d \<noteq> [] \<Longrightarrow>
     (nextchar d' = [] \<and> optind d < optind d') \<or>
     (nextchar d' = tl (nextchar d) \<and> nextchar d' \<noteq> [] \<and> optind d' = optind d)"
  unfolding getopt_short_def Let_def
  by (cases "nextchar d") (auto split: if_splits)

lemma process_long_option_step:
  "process_long_option argv os lo d = (c, d') \<Longrightarrow> nextchar d' = [] \<and> optind d < optind d'"
  unfolding process_long_option_def Let_def
  by (auto split: if_splits list.splits)

lemma getopt_long_step:
  assumes "getopt_long argv os lo d = (c, d')" and "c \<noteq> - 1"
  shows "(nextchar d' = [] \<and> optind d < optind d' \<and> (nextchar d = [] \<longrightarrow> optind d < length argv)) \<or>
         (nextchar d' \<noteq> [] \<and> optind d' = optind d \<and>
          (if nextchar d = [] then optind d < length argv \<and> length (nextchar d') < length (argv ! optind d)
           else length (nextchar d') < length (nextchar d)))"
proof (cases "nextchar d = []")
  case False
  then have "getopt_short argv (if take 1 os = ''-'' then tl os else os) d = (c, d')"
    using assms by (simp add: getopt_long_def Let_def split: if_splits)
  from getopt_short_step [OF this False] False show ?thesis
    by (cases "nextchar d") auto
next
  case True
  let ?os = "if take 1 os = ''-'' then tl os else os"
  let ?a = "argv ! optind d"
  from assms True have in_range: "optind d < length argv"
    by (auto simp: getopt_long_def Let_def split: if_splits)
  from assms True in_range consider
      (nonopt) "d' = d\<lparr>optind := optind d + 1\<rparr>"
    | (long) "process_long_option argv ?os lo (d\<lparr>nextchar := drop 2 ?a\<rparr>) = (c, d')"
    | (short) "\<not> NONOPTION_P ?a" "getopt_short argv ?os (d\<lparr>nextchar := tl ?a\<rparr>) = (c, d')"
    by (auto simp: getopt_long_def Let_def split: if_splits)
  then show ?thesis
  proof cases
    case nonopt
    with True in_range show ?thesis by simp
  next
    case long
    from process_long_option_step [OF this] in_range True show ?thesis by simp
  next
    case short
    from short(1) have ne: "tl ?a \<noteq> []" "length (tl ?a) < length ?a"
      by (auto simp: NONOPTION_P_def split: list.splits)
    from getopt_short_step [OF short(2)] ne True in_range show ?thesis
      by (auto simp: length_tl)
  qed
qed

lemma getopt_long_decreases:
  assumes "getopt_long argv os lo d = (c, d')" and "c \<noteq> - 1"
  shows "length argv - optind d' < length argv - optind d \<or>
     (length argv - optind d' = length argv - optind d \<and> todo argv d' < todo argv d)"
  using getopt_long_step [OF assms]
  by (auto simp: todo_def split: if_splits)

function getopt_trace :: "string list \<Rightarrow> getopt_data \<Rightarrow> (int \<times> getopt_data) list" where
  "getopt_trace argv d =
     (if fst (getopt_long argv sopt lopt d) = - 1 then []
      else getopt_long argv sopt lopt d # getopt_trace argv (snd (getopt_long argv sopt lopt d)))"
  by pat_completeness auto
termination
  apply (relation "measures [\<lambda>(argv, d). length argv - optind d, \<lambda>(argv, d). todo argv d]")
   apply simp
  subgoal for argv d
    using getopt_long_decreases [of argv sopt lopt d "fst (getopt_long argv sopt lopt d)" "snd (getopt_long argv sopt lopt d)"]
    by auto
  done

definition getopt_init :: getopt_data where
  "getopt_init = \<lparr>optind = 1, nextchar = []\<rparr>"

subsection \<open>Log levels\<close>

text \<open>
  Modelled from the spec: \<^verbatim>\<open>logging.h\<close> and \<^verbatim>\<open>logging.c\<close> are not among the sources.
  The specification describes a process-wide verbosity state with two effective
  levels, quiet and verbose, that \<^verbatim>\<open>-q\<close> lowers and \<^verbatim>\<open>-v\<close> raises. As in libntfs-3g the
  state is a bit mask, \<^verbatim>\<open>ntfs_log_set_levels\<close> sets bits and \<^verbatim>\<open>ntfs_log_clear_levels\<close>
  clears them. The parser of the \<^verbatim>\<open>--log-\<close> options is a parameter of the model: any
  function from the option and the current levels to a verdict and new levels.
\<close>

definition NTFS_LOG_LEVEL_QUIET :: u32 where
  "NTFS_LOG_LEVEL_QUIET = 4"

definition NTFS_LOG_LEVEL_VERBOSE :: u32 where
  "NTFS_LOG_LEVEL_VERBOSE = 16"

definition ntfs_log_set_levels :: "u32 \<Rightarrow> u32 \<Rightarrow> u32" where
  "ntfs_log_set_levels l cur = cur OR l"

definition ntfs_log_clear_levels :: "u32 \<Rightarrow> u32 \<Rightarrow> u32" where
  "ntfs_log_clear_levels l cur = cur AND NOT l"

definition ntfs_log_get_levels :: "u32 \<Rightarrow> u32" where
  "ntfs_log_get_levels cur = cur"

type_synonym log_parser = "string \<Rightarrow> u32 \<Rightarrow> bool \<times> u32"

subsection \<open>The program state\<close>

text \<open>
  \<^verbatim>\<open>opts\<close> is the static \<^verbatim>\<open>struct options\<close>: the four fields of \<^verbatim>\<open>ntfsvolume.h\<close> and the
  two range fields that \<^verbatim>\<open>parse_options\<close> assigns. The counters are C \<^verbatim>\<open>int\<close>s that
  only count options of the command line; no argument vector is long enough to
  overflow them, and they are modelled as integers. The state also holds the levels
  of the logging library, the output, and the calls to the volume layer.
\<close>

record options =
  device :: "string option"
  quiet :: int
  verbose :: int
  force :: int
  range_begin :: int
  range_end :: int

datatype mnt_flag = NTFS_MNT_RDONLY | NTFS_MNT_RECOVER

datatype ext_call =
    Set_handler_outerr
  | Set_locale
  | Mount_volume "string option" "mnt_flag set"
  | Umount ntfs_volume bool

record prog_state =
  opts :: options
  levels :: u32
  log_out :: "log_call list"
  calls :: "ext_call list"

definition initial_state :: "u32 \<Rightarrow> prog_state" where
  "initial_state lv =
     \<lparr>opts = \<lparr>device = None, quiet = 0, verbose = 0, force = 0, range_begin = 0, range_end = 0\<rparr>,
      levels = lv, log_out = [], calls = []\<rparr>"

subsection \<open>version and usage\<close>

definition EXEC_NAME :: string where
  "EXEC_NAME = ''ntfsvolume''"

definition version :: "log_call list \<Rightarrow> log_call list" where
  "version out =
     (let out = ntfs_log_info ''\<newline>%s v%s (libntfs-3g) - Print volume information.\<newline>\<newline>''
                  [Arg_str EXEC_NAME, Arg_extern ''VERSION''] out;
          out = ntfs_log_info ''Copyright (c) 2002-2003 Richard Russon\<newline>'' [] out;
          out = ntfs_log_info ''Copyright (c) 2005 Anton Altaparmakov\<newline>'' [] out;
          out = ntfs_log_info ''Copyright (c) 2005-2006 Szabolcs Szakacsits\<newline>'' [] out
      in ntfs_log_info ''\<newline>%s\<newline>%s%s\<newline>''
           [Arg_extern ''ntfs_gpl'', Arg_extern ''ntfs_bugs'', Arg_extern ''ntfs_home''] out)"

definition usage :: "log_call list \<Rightarrow> log_call list" where
  "usage out =
     (let out = ntfs_log_info
            (''\<newline>Usage: %s [options] device\<newline>'' @
             ''    -f, --force          Use less caution\<newline>'' @
             ''    -q, --quiet          Less output\<newline>'' @
             ''    -v, --verbose        More output\<newline>'' @
             ''    -V, --version        Version information\<newline>'' @
             ''    -h, --help           Print this help\<newline>\<newline>'')
            [Arg_str EXEC_NAME] out
      in ntfs_log_info ''%s%s\<newline>'' [Arg_extern ''ntfs_bugs'', Arg_extern ''ntfs_home''] out)"

subsection \<open>parse_options\<close>

text \<open>The locals \<^verbatim>\<open>err\<close>, \<^verbatim>\<open>ver\<close> and \<^verbatim>\<open>help\<close> of \<^verbatim>\<open>parse_options\<close>.\<close>

record parse_vars =
  err :: int
  ver :: int
  help' :: int

text \<open>The body of the \<^verbatim>\<open>switch\<close>, for the code \<open>c\<close> that left \<^verbatim>\<open>getopt_long\<close> in state \<open>d\<close>.\<close>

definition parse_case ::
  "log_parser \<Rightarrow> string list \<Rightarrow> int \<Rightarrow> getopt_data \<Rightarrow> parse_vars \<times> prog_state \<Rightarrow> parse_vars \<times> prog_state" where
  "parse_case lp argv c d = (\<lambda>(l, s).
     if c = 1 then
       (if device (opts s) = None
        then (l, s\<lparr>opts := (opts s)\<lparr>device := Some (argv ! (optind d - 1))\<rparr>\<rparr>)
        else (l\<lparr>err := err l + 1\<rparr>, s\<lparr>opts := (opts s)\<lparr>device := None\<rparr>\<rparr>))
     else if c = of_char CHR ''f'' then (l, s\<lparr>opts := (opts s)\<lparr>force := force (opts s) + 1\<rparr>\<rparr>)
     else if c = of_char CHR ''h'' then (l\<lparr>help' := help' l + 1\<rparr>, s)
     else if c = of_char CHR ''q'' then
       (l, s\<lparr>opts := (opts s)\<lparr>quiet := quiet (opts s) + 1\<rparr>,
             levels := ntfs_log_clear_levels NTFS_LOG_LEVEL_QUIET (levels s)\<rparr>)
     else if c = of_char CHR ''v'' then
       (l, s\<lparr>opts := (opts s)\<lparr>verbose := verbose (opts s) + 1\<rparr>,
             levels := ntfs_log_set_levels NTFS_LOG_LEVEL_VERBOSE (levels s)\<rparr>)
     else if c = of_char CHR ''V'' then (l\<lparr>ver := ver l + 1\<rparr>, s)
     else if c = of_char CHR ''?'' \<and> take 6 (argv ! (optind d - 1)) = ''--log-'' then
       (if \<not> fst (lp (argv ! (optind d - 1)) (levels s)) then l\<lparr>err := err l + 1\<rparr> else l,
        s\<lparr>levels := snd (lp (argv ! (optind d - 1)) (levels s))\<rparr>)
     else
       (l\<lparr>err := err l + 1\<rparr>,
        s\<lparr>log_out := ntfs_log_error ''Unknown option '%s'.\<newline>''
                         [Arg_str (argv ! (optind d - 1))] (log_out s)\<rparr>))"

text \<open>
  The \<^verbatim>\<open>while\<close> loop around \<^verbatim>\<open>getopt_long\<close>. It ends at the first -1; the measure is the
  one of the scan.
\<close>

function parse_loop ::
  "log_parser \<Rightarrow> string list \<Rightarrow> getopt_data \<Rightarrow> parse_vars \<times> prog_state \<Rightarrow> parse_vars \<times> prog_state" where
  "parse_loop lp argv d st =
     (if fst (getopt_long argv sopt lopt d) = - 1 then st
      else parse_loop lp argv (snd (getopt_long argv sopt lopt d))
             (parse_case lp argv (fst (getopt_long argv sopt lopt d))
                (snd (getopt_long argv sopt lopt d)) st))"
  by pat_completeness auto
termination
  apply (relation "measures [\<lambda>(lp, argv, d, st). length argv - optind d, \<lambda>(lp, argv, d, st). todo argv d]")
   apply simp
  subgoal for lp argv d st
    using getopt_long_decreases [of argv sopt lopt d "fst (getopt_long argv sopt lopt d)"
        "snd (getopt_long argv sopt lopt d)"]
    by auto
  done

text \<open>Bringing the counters in line with the log levels.\<close>

definition parse_sync :: "prog_state \<Rightarrow> prog_state" where
  "parse_sync s =
     (let lv = ntfs_log_get_levels (levels s);
          s = (if lv AND NTFS_LOG_LEVEL_VERBOSE \<noteq> 0
               then s\<lparr>opts := (opts s)\<lparr>verbose := verbose (opts s) + 1\<rparr>\<rparr> else s)
      in if lv AND NTFS_LOG_LEVEL_QUIET = 0
         then s\<lparr>opts := (opts s)\<lparr>quiet := quiet (opts s) + 1\<rparr>\<rparr> else s)"

text \<open>The checks after the scan: \<^verbatim>\<open>if (help || ver) ... else ...\<close>.\<close>

definition parse_check :: "nat \<Rightarrow> parse_vars \<times> prog_state \<Rightarrow> parse_vars \<times> prog_state" where
  "parse_check argc = (\<lambda>(l, s).
     if help' l \<noteq> 0 \<or> ver l \<noteq> 0 then (l, s\<lparr>opts := (opts s)\<lparr>quiet := 0\<rparr>\<rparr>)
     else
       (let (l, s) =
              (if device (opts s) = None
               then (l\<lparr>err := err l + 1\<rparr>,
                     if 1 < argc
                     then s\<lparr>log_out := ntfs_log_error ''You must specify exactly one device.\<newline>'' []
                                         (log_out s)\<rparr>
                     else s)
               else (l, s))
        in if quiet (opts s) \<noteq> 0 \<and> verbose (opts s) \<noteq> 0
           then (l\<lparr>err := err l + 1\<rparr>,
                 s\<lparr>log_out := ntfs_log_error
                     ''You may not use --quiet and --verbose at the same time.\<newline>'' [] (log_out s)\<rparr>)
           else (l, s)))"

text \<open>The banners, and the three-valued result: 0 done, 1 error, -1 proceed.\<close>

definition parse_print :: "parse_vars \<times> prog_state \<Rightarrow> prog_state" where
  "parse_print = (\<lambda>(l, s).
     let s = (if ver l \<noteq> 0 then s\<lparr>log_out := version (log_out s)\<rparr> else s)
     in if help' l \<noteq> 0 \<or> err l \<noteq> 0 then s\<lparr>log_out := usage (log_out s)\<rparr> else s)"

definition parse_result :: "parse_vars \<Rightarrow> int" where
  "parse_result l = (if err l \<noteq> 0 then 1 else if help' l \<noteq> 0 \<or> ver l \<noteq> 0 then 0 else - 1)"

text \<open>The locals and the two range fields as they are when the loop starts.\<close>

definition scan_start :: "prog_state \<Rightarrow> parse_vars \<times> prog_state" where
  "scan_start s0 = (\<lparr>err = 0, ver = 0, help' = 0\<rparr>, s0\<lparr>opts := (opts s0)\<lparr>range_begin := - 1, range_end := - 1\<rparr>\<rparr>)"

definition parse_options :: "log_parser \<Rightarrow> string list \<Rightarrow> prog_state \<Rightarrow> int \<times> prog_state" where
  "parse_options lp argv s0 =
     (let (l, s) = parse_loop lp argv getopt_init (scan_start s0);
          (l, s) = parse_check (length argv) (l, parse_sync s)
      in (parse_result l, parse_print (l, s)))"

subsection \<open>main\<close>



subsection \<open>Notions for the statements\<close>

text \<open>
  A claim about an argument list that contains a flag is read on the scan: the flag
  is one that \<^verbatim>\<open>getopt_long\<close> reports while \<^verbatim>\<open>parse_options\<close> runs. \<open>getopt_trace\<close>
  is the sequence of its results, each code with the state it left, and \<open>scan_codes\<close>
  the codes alone. An element after \<^verbatim>\<open>--\<close>, or one taken as the argument of an
  option, is not reported.
\<close>

definition scan_codes :: "string list \<Rightarrow> int list" where
  "scan_codes argv = map fst (getopt_trace argv getopt_init)"

text \<open>The switch applied to a sequence of results of \<^verbatim>\<open>getopt_long\<close>.\<close>

definition parse_events ::
  "log_parser \<Rightarrow> string list \<Rightarrow> (int \<times> getopt_data) list \<Rightarrow> parse_vars \<times> prog_state \<Rightarrow> parse_vars \<times> prog_state" where
  "parse_events lp argv evs st = foldl (\<lambda>st e. parse_case lp argv (fst e) (snd e) st) st evs"






text \<open>
  The elements of an ordinary command line and their codes: the five options in
  their short and long spellings, and the elements that are not options.
\<close>

definition plain_code :: "string \<Rightarrow> int option" where
  "plain_code t =
     (if t = ''-f'' \<or> t = ''--force'' then Some (of_char CHR ''f'')
      else if t = ''-h'' \<or> t = ''--help'' then Some (of_char CHR ''h'')
      else if t = ''-q'' \<or> t = ''--quiet'' then Some (of_char CHR ''q'')
      else if t = ''-v'' \<or> t = ''--verbose'' then Some (of_char CHR ''v'')
      else if t = ''-V'' \<or> t = ''--version'' then Some (of_char CHR ''V'')
      else if NONOPTION_P t then Some 1
      else None)"

text \<open>The two error messages that the statements name.\<close>

definition conflict_message :: log_call where
  "conflict_message = Log_error ''You may not use --quiet and --verbose at the same time.\<newline>'' []"

definition unknown_option :: "string \<Rightarrow> log_call" where
  "unknown_option a = Log_error ''Unknown option '%s'.\<newline>'' [Arg_str a]"

text \<open>
  For the examples: a logging parser that accepts nothing, the levels libntfs-3g
  starts with (quiet set, verbose clear), and a volume layer on which every mount
  fails.
\<close>

definition no_log_options :: log_parser where
  "no_log_options = (\<lambda>opt lv. (False, lv))"

definition ntfs_log_default_levels :: u32 where
  "ntfs_log_default_levels = 1004"


section \<open>Lemmas\<close>

subsection \<open>info\<close>

text \<open>The shifts as arithmetic.\<close>

lemma signed_drop_bit_div: "signed_drop_bit n (w :: 'a::len word) = word_of_int (sint w div 2 ^ n)"
proof -
  have "sint (signed_drop_bit n w) = sint w div 2 ^ n"
    by (simp add: sint_signed_drop_bit_eq drop_bit_eq_div)
  then have "word_of_int (sint (signed_drop_bit n w)) = (word_of_int (sint w div 2 ^ n) :: 'a word)"
    by simp
  then show ?thesis by simp
qed

lemma push_bit_mult: "push_bit n (w :: 'a::len word) = word_of_int (sint w * 2 ^ n)"
  by (simp add: push_bit_eq_mult)

lemma scast_push_bit_1:
  assumes "n \<le> 30"
  shows "(scast (push_bit n (1 :: c_int)) :: u64) = word_of_int (2 ^ n)"
proof -
  have lt: "(2::int) ^ n < 2 ^ 31"
    using assms by (intro power_strict_increasing) auto
  have "sint (push_bit n (1 :: c_int)) = 2 ^ n"
  proof -
    have "push_bit n (1 :: c_int) = word_of_int (2 ^ n)" by (simp add: push_bit_eq_mult)
    moreover have "sint (word_of_int (2 ^ n) :: c_int) = 2 ^ n"
    proof -
      have "- (2 ^ 31) \<le> (2::int) ^ n" by (rule order_trans [of _ 0]) simp_all
      with lt show ?thesis
        by (simp only: sint_sbintrunc' signed_take_bit_int_eq_self_iff) simp
    qed
    ultimately show ?thesis by simp
  qed
  then show ?thesis by (simp add: scast_eq)
qed

lemma nat_uint_diff:
  "uint (a::u8) \<le> uint (b::u8) \<Longrightarrow> nat (uint b - uint a) = unat b - unat a"
  by (simp add: nat_diff_distrib')

lemma c_shl_one:
  "c_shl (1 :: c_int) n = (if 0 \<le> n \<and> n \<le> 30 then Some (push_bit (nat n) 1) else None)"
proof -
  have p: "n \<le> 30 \<longleftrightarrow> (2::int) ^ nat n < 2 ^ 31" if "0 \<le> n"
  proof
    assume "n \<le> 30"
    then have "(2::int) ^ nat n \<le> 2 ^ 30" by (intro power_increasing) auto
    then show "(2::int) ^ nat n < 2 ^ 31" by simp
  next
    assume a: "(2::int) ^ nat n < 2 ^ 31"
    have "nat n < 31" by (rule power_less_imp_less_exp [OF _ a]) simp
    with that show "n \<le> 30" by simp
  qed
  show ?thesis
  proof (cases "0 \<le> n")
    case True
    with p [OF True] show ?thesis by (auto simp: c_shl_def not_le not_less)
  next
    case False
    then show ?thesis by (simp add: c_shl_def)
  qed
qed

lemma scast_exp:
  assumes "n \<le> 30"
  shows "(scast ((2 :: c_int) ^ n) :: u64) = 2 ^ n"
  using scast_push_bit_1 [OF assms] by (simp add: push_bit_of_1)

lemma info_valid:
  assumes "valid_handle vol"
  shows "info (vol, out) = Some (0, vol, out @ geometry_lines (info_values vol))"
proof -
  let ?cb = "uint (cluster_size_bits vol)" and ?sb = "uint (sector_size_bits vol)"
  from assms have le: "?sb \<le> ?cb" and cps: "?cb - ?sb \<le> 30" and cb: "?cb < 64"
    and nr: "0 \<le> sint (nr_clusters vol)"
    and bytes: "sint (nr_clusters vol) * 2 ^ unat (cluster_size_bits vol) < 2 ^ 63"
    and mb: "uint (mft_record_size_bits vol) < 64"
    by (simp_all add: valid_handle_def)
  from le cps have k: "unat (cluster_size_bits vol) - unat (sector_size_bits vol) \<le> 30"
    using nat_uint_diff [OF le] by simp
  have c: "map_option scast (c_shl (1 :: c_int) (?cb - ?sb)) =
      Some (word_of_int (2 ^ (unat (cluster_size_bits vol) - unat (sector_size_bits vol))) :: u64)"
    using le cps k by (simp add: c_shl_one nat_uint_diff scast_exp)
  have d: "c_shl (nr_clusters vol) ?cb =
      Some (word_of_int (sint (nr_clusters vol) * 2 ^ unat (cluster_size_bits vol)))"
    using cb nr bytes by (simp add: c_shl_def push_bit_mult)
  have f: "c_shr (nr_clusters vol) (?cb - ?sb) =
      Some (word_of_int (sint (nr_clusters vol) div
              2 ^ (unat (cluster_size_bits vol) - unat (sector_size_bits vol))))"
    using le cps by (simp add: c_shr_def nat_uint_diff signed_drop_bit_div)
  have g: "c_shr (initialized_size (mft_na vol)) (uint (mft_record_size_bits vol)) =
      Some (word_of_int (sint (initialized_size (mft_na vol)) div 2 ^ unat (mft_record_size_bits vol)))"
    using mb by (simp add: c_shr_def signed_drop_bit_div)
  show ?thesis
    by (simp add: info_def c d f g ntfs_log_info_def geometry_lines_def info_values_def)
qed

lemma info_invalid:
  assumes "\<not> valid_handle vol"
  shows "info (vol, out) = None"
proof -
  let ?cb = "uint (cluster_size_bits vol)" and ?sb = "uint (sector_size_bits vol)"
  from assms consider
      (c) "\<not> (0 \<le> ?cb - ?sb \<and> ?cb - ?sb \<le> 30)"
    | (d) "64 \<le> ?cb \<or> sint (nr_clusters vol) < 0 \<or>
           2 ^ 63 \<le> sint (nr_clusters vol) * 2 ^ unat (cluster_size_bits vol)"
    | (g) "64 \<le> uint (mft_record_size_bits vol)"
    unfolding valid_handle_def by fastforce
  then show ?thesis
  proof cases
    case c
    then have "c_shl (1 :: c_int) (?cb - ?sb) = None" by (simp add: c_shl_one)
    then show ?thesis by (simp add: info_def)
  next
    case d
    then have "c_shl (nr_clusters vol) ?cb = None" by (auto simp: c_shl_def)
    then show ?thesis by (simp add: info_def split: Option.bind_splits)
  next
    case g
    then have "c_shr (initialized_size (mft_na vol)) (uint (mft_record_size_bits vol)) = None"
      by (simp add: c_shr_def)
    then show ?thesis by (simp add: info_def split: Option.bind_splits)
  qed
qed

lemma valid_example: "valid_handle example_volume"
  by (simp add: valid_handle_def example_volume_def)


subsection \<open>The scan as a run of the switch\<close>

declare parse_loop.simps [simp del] getopt_trace.simps [simp del]

lemma parse_events_Nil [simp]: "parse_events lp argv [] st = st"
  by (simp add: parse_events_def)

lemma parse_events_Cons [simp]:
  "parse_events lp argv (e # evs) st = parse_events lp argv evs (parse_case lp argv (fst e) (snd e) st)"
  by (simp add: parse_events_def)

lemma parse_events_snoc [simp]:
  "parse_events lp argv (evs @ [e]) st = parse_case lp argv (fst e) (snd e) (parse_events lp argv evs st)"
  by (simp add: parse_events_def)

lemma parse_events_append:
  "parse_events lp argv (xs @ ys) st = parse_events lp argv ys (parse_events lp argv xs st)"
  by (simp add: parse_events_def)

lemma parse_loop_trace:
  "parse_loop lp argv d st = parse_events lp argv (getopt_trace argv d) st"
proof (induction lp argv d st rule: parse_loop.induct)
  case (1 lp argv d st)
  show ?case
  proof (cases "fst (getopt_long argv sopt lopt d) = - 1")
    case True
    then show ?thesis
      by (simp add: parse_loop.simps [of lp argv d st] getopt_trace.simps [of argv d])
  next
    case False
    with 1 show ?thesis
      by (simp add: parse_loop.simps [of lp argv d st] getopt_trace.simps [of argv d])
  qed
qed

lemma code_values [simp]:
  "(of_char CHR ''f'' :: int) = 102" "(of_char CHR ''h'' :: int) = 104"
  "(of_char CHR ''q'' :: int) = 113" "(of_char CHR ''v'' :: int) = 118"
  "(of_char CHR ''V'' :: int) = 86" "(of_char CHR ''?'' :: int) = 63"
  "(of_char CHR ''c'' :: int) = 99" "(of_char CHR ''F'' :: int) = 70"
  "(of_char CHR ''I'' :: int) = 73" "(of_char CHR ''s'' :: int) = 115"
  "(of_char CHR ''i'' :: int) = 105" "(of_char CHR ''l'' :: int) = 108"
  by simp_all

text \<open>One step of the switch, by case.\<close>

lemma parse_case_nonopt:
  "parse_case lp argv 1 d (l, s) =
     (if device (opts s) = None
      then (l, s\<lparr>opts := (opts s)\<lparr>device := Some (argv ! (optind d - 1))\<rparr>\<rparr>)
      else (l\<lparr>err := err l + 1\<rparr>, s\<lparr>opts := (opts s)\<lparr>device := None\<rparr>\<rparr>))"
  by (simp add: parse_case_def)

lemma parse_case_f: "parse_case lp argv 102 d (l, s) = (l, s\<lparr>opts := (opts s)\<lparr>force := force (opts s) + 1\<rparr>\<rparr>)"
  by (simp add: parse_case_def)

lemma parse_case_h: "parse_case lp argv 104 d (l, s) = (l\<lparr>help' := help' l + 1\<rparr>, s)"
  by (simp add: parse_case_def)

lemma parse_case_q:
  "parse_case lp argv 113 d (l, s) =
     (l, s\<lparr>opts := (opts s)\<lparr>quiet := quiet (opts s) + 1\<rparr>,
           levels := ntfs_log_clear_levels NTFS_LOG_LEVEL_QUIET (levels s)\<rparr>)"
  by (simp add: parse_case_def)

lemma parse_case_v:
  "parse_case lp argv 118 d (l, s) =
     (l, s\<lparr>opts := (opts s)\<lparr>verbose := verbose (opts s) + 1\<rparr>,
           levels := ntfs_log_set_levels NTFS_LOG_LEVEL_VERBOSE (levels s)\<rparr>)"
  by (simp add: parse_case_def)

lemma parse_case_V: "parse_case lp argv 86 d (l, s) = (l\<lparr>ver := ver l + 1\<rparr>, s)"
  by (simp add: parse_case_def)

lemma parse_case_log:
  "take 6 (argv ! (optind d - 1)) = ''--log-'' \<Longrightarrow>
   parse_case lp argv 63 d (l, s) =
     (if \<not> fst (lp (argv ! (optind d - 1)) (levels s)) then l\<lparr>err := err l + 1\<rparr> else l,
      s\<lparr>levels := snd (lp (argv ! (optind d - 1)) (levels s))\<rparr>)"
  by (simp add: parse_case_def)

lemma parse_case_unknown:
  "c \<notin> {1, 102, 104, 113, 118, 86} \<Longrightarrow> c = 63 \<longrightarrow> take 6 (argv ! (optind d - 1)) \<noteq> ''--log-'' \<Longrightarrow>
   parse_case lp argv c d (l, s) =
     (l\<lparr>err := err l + 1\<rparr>,
      s\<lparr>log_out := log_out s @ [Log_error ''Unknown option '%s'.\<newline>'' [Arg_str (argv ! (optind d - 1))]]\<rparr>)"
  by (auto simp add: parse_case_def ntfs_log_error_def)

lemmas parse_case_simps =
  parse_case_nonopt parse_case_f parse_case_h parse_case_q parse_case_v parse_case_V

text \<open>Every code falls in one of the classes.\<close>

lemma code_cases:
  obtains "c = 1" | "c = 102" | "c = 104" | "c = 113" | "c = 118" | "c = 86"
  | "c = 63" "take 6 (argv ! (optind d - 1)) = ''--log-''"
  | "c \<notin> {1, 102, 104, 113, 118, 86}" "c = 63 \<longrightarrow> take 6 (argv ! (optind d - 1)) \<noteq> ''--log-''"
  by blast






text \<open>What a step never undoes, what it leaves alone, and what it counts.\<close>

lemma parse_case_mono:
  assumes "parse_case lp argv c d (l, s) = (l', s')"
  shows "err l \<le> err l' \<and> help' l \<le> help' l' \<and> ver l \<le> ver l' \<and>
         quiet (opts s) \<le> quiet (opts s') \<and> verbose (opts s) \<le> verbose (opts s') \<and>
         calls s' = calls s"
  by (insert assms, rule code_cases [where c = c and argv = argv and d = d])
     (auto simp: parse_case_simps parse_case_log parse_case_unknown split: if_splits)

lemma parse_case_frame:
  assumes "parse_case lp argv c d (l, s) = (l', s')"
  shows "(c \<noteq> 104 \<longrightarrow> help' l' = help' l) \<and> (c \<noteq> 86 \<longrightarrow> ver l' = ver l) \<and>
         (c \<noteq> 1 \<longrightarrow> device (opts s') = device (opts s)) \<and>
         (conflict_message \<in> set (log_out s') \<longleftrightarrow> conflict_message \<in> set (log_out s)) \<and>
         set (log_out s) \<subseteq> set (log_out s')"
  by (insert assms, rule code_cases [where c = c and argv = argv and d = d])
     (auto simp: parse_case_simps parse_case_log parse_case_unknown conflict_message_def
           split: if_splits)

lemma parse_case_counts:
  assumes "parse_case lp argv c d (l, s) = (l', s')"
  shows "(c = 104 \<longrightarrow> help' l' = help' l + 1) \<and> (c = 86 \<longrightarrow> ver l' = ver l + 1) \<and>
         (c = 113 \<longrightarrow> quiet (opts s') = quiet (opts s) + 1) \<and>
         (c = 118 \<longrightarrow> verbose (opts s') = verbose (opts s) + 1)"
  using assms by (auto simp: parse_case_simps)

lemma parse_case_undocumented:
  assumes "c \<in> {99, 70, 73, 115, 105, 108}"
  shows "parse_case lp argv c d (l, s) =
           (l\<lparr>err := err l + 1\<rparr>, s\<lparr>log_out := log_out s @ [unknown_option (argv ! (optind d - 1))]\<rparr>)"
  using assms by (subst parse_case_unknown) (auto simp: unknown_option_def)



subsection \<open>Runs of the switch\<close>

lemma parse_events_mono:
  "parse_events lp argv evs (l, s) = (l', s') \<Longrightarrow>
     err l \<le> err l' \<and> help' l \<le> help' l' \<and> ver l \<le> ver l' \<and>
     quiet (opts s) \<le> quiet (opts s') \<and> verbose (opts s) \<le> verbose (opts s') \<and>
     calls s' = calls s"
proof (induction evs arbitrary: l s)
  case Nil
  then show ?case by simp
next
  case (Cons e evs)
  obtain l1 s1 where step: "parse_case lp argv (fst e) (snd e) (l, s) = (l1, s1)"
    by (cases "parse_case lp argv (fst e) (snd e) (l, s)")
  with Cons.prems have "parse_events lp argv evs (l1, s1) = (l', s')" by simp
  from Cons.IH [OF this] parse_case_mono [OF step] show ?case by auto
qed

lemma parse_events_frame:
  "parse_events lp argv evs (l, s) = (l', s') \<Longrightarrow>
     (104 \<notin> fst ` set evs \<longrightarrow> help' l' = help' l) \<and> (86 \<notin> fst ` set evs \<longrightarrow> ver l' = ver l) \<and>
     (1 \<notin> fst ` set evs \<longrightarrow> device (opts s') = device (opts s)) \<and>
     (conflict_message \<in> set (log_out s') \<longleftrightarrow> conflict_message \<in> set (log_out s)) \<and>
     set (log_out s) \<subseteq> set (log_out s')"
proof (induction evs arbitrary: l s)
  case Nil
  then show ?case by simp
next
  case (Cons e evs)
  obtain l1 s1 where step: "parse_case lp argv (fst e) (snd e) (l, s) = (l1, s1)"
    by (cases "parse_case lp argv (fst e) (snd e) (l, s)")
  with Cons.prems have "parse_events lp argv evs (l1, s1) = (l', s')" by simp
  from Cons.IH [OF this] parse_case_frame [OF step] show ?case by auto
qed

lemma parse_events_counted:
  assumes "(c, d) \<in> set evs" and "parse_events lp argv evs (l, s) = (l', s')"
  shows "(c = 104 \<longrightarrow> help' l < help' l') \<and> (c = 86 \<longrightarrow> ver l < ver l') \<and>
         (c = 113 \<longrightarrow> quiet (opts s) < quiet (opts s')) \<and>
         (c = 118 \<longrightarrow> verbose (opts s) < verbose (opts s')) \<and>
         (c \<in> {99, 70, 73, 115, 105, 108} \<longrightarrow>
            err l < err l' \<and> unknown_option (argv ! (optind d - 1)) \<in> set (log_out s'))"
proof -
  from assms(1) obtain xs ys where evs: "evs = xs @ (c, d) # ys"
    by (auto simp: in_set_conv_decomp)
  obtain l1 s1 where before: "parse_events lp argv xs (l, s) = (l1, s1)"
    by (cases "parse_events lp argv xs (l, s)")
  obtain l2 s2 where step: "parse_case lp argv c d (l1, s1) = (l2, s2)"
    by (cases "parse_case lp argv c d (l1, s1)")
  from assms(2) evs before step have after: "parse_events lp argv ys (l2, s2) = (l', s')"
    by (simp add: parse_events_append)
  note m1 = parse_events_mono [OF before] and m2 = parse_events_mono [OF after]
    and f2 = parse_events_frame [OF after]
  have "c = 104 \<longrightarrow> help' l < help' l'" "c = 86 \<longrightarrow> ver l < ver l'"
    "c = 113 \<longrightarrow> quiet (opts s) < quiet (opts s')" "c = 118 \<longrightarrow> verbose (opts s) < verbose (opts s')"
    using parse_case_counts [OF step] m1 m2 by auto
  moreover have "err l < err l' \<and> unknown_option (argv ! (optind d - 1)) \<in> set (log_out s')"
    if "c \<in> {99, 70, 73, 115, 105, 108}"
  proof -
    from step parse_case_undocumented [OF that, of lp argv d l1 s1]
    have "err l2 = err l1 + 1" "unknown_option (argv ! (optind d - 1)) \<in> set (log_out s2)"
      by auto
    with m1 m2 f2 show ?thesis by auto
  qed
  ultimately show ?thesis by blast
qed

lemma parse_events_device_set:
  assumes "1 \<in> fst ` set evs" and "device (opts s) \<noteq> None"
    and "parse_events lp argv evs (l, s) = (l', s')"
  shows "err l < err l'"
  using assms
proof (induction evs arbitrary: l s)
  case Nil
  then show ?case by simp
next
  case (Cons e evs)
  obtain l1 s1 where step: "parse_case lp argv (fst e) (snd e) (l, s) = (l1, s1)"
    by (cases "parse_case lp argv (fst e) (snd e) (l, s)")
  with Cons.prems have rest: "parse_events lp argv evs (l1, s1) = (l', s')" by simp
  show ?case
  proof (cases "fst e = 1")
    case True
    with step Cons.prems(2) have "err l1 = err l + 1" by (auto simp: parse_case_nonopt)
    with parse_events_mono [OF rest] show ?thesis by simp
  next
    case False
    with parse_case_frame [OF step] parse_case_mono [OF step] Cons.prems
    have "1 \<in> fst ` set evs" "device (opts s1) \<noteq> None" "err l \<le> err l1" by auto
    with Cons.IH [OF _ _ rest] show ?thesis by simp
  qed
qed

lemma parse_events_second_nonopt:
  assumes "2 \<le> length (filter (\<lambda>e. fst e = 1) evs)"
    and "parse_events lp argv evs (l, s) = (l', s')"
  shows "err l < err l'"
  using assms
proof (induction evs arbitrary: l s)
  case Nil
  then show ?case by simp
next
  case (Cons e evs)
  obtain l1 s1 where step: "parse_case lp argv (fst e) (snd e) (l, s) = (l1, s1)"
    by (cases "parse_case lp argv (fst e) (snd e) (l, s)")
  with Cons.prems have rest: "parse_events lp argv evs (l1, s1) = (l', s')" by simp
  show ?case
  proof (cases "fst e = 1")
    case True
    with Cons.prems(1) have "filter (\<lambda>e. fst e = 1) evs \<noteq> []" by auto
    then have more: "1 \<in> fst ` set evs"
      by (metis (mono_tags, lifting) filter_False image_eqI)
    show ?thesis
    proof (cases "device (opts s)")
      case None
      with step True have "err l1 = err l" "device (opts s1) \<noteq> None"
        by (auto simp: parse_case_nonopt)
      with parse_events_device_set [OF more _ rest] show ?thesis by simp
    next
      case (Some a)
      with step True have "err l1 = err l + 1" by (auto simp: parse_case_nonopt)
      with parse_events_mono [OF rest] show ?thesis by simp
    qed
  next
    case False
    with Cons.prems(1) have "2 \<le> length (filter (\<lambda>e. fst e = 1) evs)" by simp
    from Cons.IH [OF this rest] parse_case_mono [OF step] show ?thesis by simp
  qed
qed





subsection \<open>What getopt_long reports\<close>

lemma filter_Cons_mem: "filter P xs = y # ys \<Longrightarrow> y \<in> set xs"
proof -
  assume "filter P xs = y # ys"
  then have "y \<in> set (filter P xs)" by simp
  then show ?thesis by simp
qed

lemma getopt_short_codes:
  "getopt_short argv os d = (c, d') \<Longrightarrow> c = 63 \<or> c = 58 \<or> (\<exists>x \<in> set os. c = of_char x)"
  unfolding getopt_short_def Let_def
  by (cases "nextchar d") (auto split: if_splits simp: dropWhile_eq_Nil_conv)

lemma process_long_option_codes:
  "process_long_option argv os lo d = (c, d') \<Longrightarrow> c = 63 \<or> c = 58 \<or> (\<exists>p \<in> set lo. c = val p)"
  unfolding process_long_option_def Let_def
  by (auto split: if_splits list.splits dest: filter_Cons_mem)

lemma getopt_long_nonopt:
  assumes "getopt_long argv sopt lopt d = (1, d')"
  shows "nextchar d = [] \<and> optind d < length argv \<and> NONOPTION_P (argv ! optind d) \<and>
         d' = d\<lparr>optind := optind d + 1\<rparr>"
proof -
  have short: "getopt_short argv (tl sopt) d0 \<noteq> (1, d')" for d0
    using getopt_short_codes [of argv "tl sopt" d0 1 d'] by (auto simp: sopt_def)
  have long: "process_long_option argv (tl sopt) lopt d0 \<noteq> (1, d')" for d0
    using process_long_option_codes [of argv "tl sopt" lopt d0 1 d'] by (auto simp: lopt_def)
  have os: "(if take 1 sopt = ''-'' then tl sopt else sopt) = tl sopt" by (simp add: sopt_def)
  from assms short long show ?thesis
    unfolding getopt_long_def Let_def os
    by (auto split: if_splits)
qed

lemma getopt_trace_optind:
  "(c, d') \<in> set (getopt_trace argv d) \<Longrightarrow>
     optind d \<le> optind d' \<and>
     (c = 1 \<longrightarrow> optind d < optind d' \<and> optind d' - 1 < length argv \<and> NONOPTION_P (argv ! (optind d' - 1)))"
proof (induction argv d rule: getopt_trace.induct)
  case (1 argv d)
  let ?r = "getopt_long argv sopt lopt d"
  show ?case
  proof (cases "fst ?r = - 1")
    case True
    with "1.prems" show ?thesis by (simp add: getopt_trace.simps [of argv d])
  next
    case False
    have r: "?r = (fst ?r, snd ?r)" by simp
    from getopt_long_step [OF r False] have le: "optind d \<le> optind (snd ?r)" by auto
    from "1.prems" False consider "(c, d') = ?r" | "(c, d') \<in> set (getopt_trace argv (snd ?r))"
      by (auto simp: getopt_trace.simps [of argv d])
    then show ?thesis
    proof cases
      case 1
      show ?thesis
      proof (cases "c = 1")
        case True
        with 1 have "getopt_long argv sopt lopt d = (1, d')" by simp
        from getopt_long_nonopt [OF this] True show ?thesis by simp
      next
        case False
        with 1 le show ?thesis by (metis snd_conv)
      qed
    next
      case 2
      from "1.IH" [OF False 2] le show ?thesis by auto
    qed
  qed
qed

text \<open>
  On an ordinary command line the scan reports the code of each element after the
  program name, in order; and it reports a non-option element only if the command
  line has one.
\<close>

lemma getopt_long_short_flag:
  assumes "nextchar d = []" and "optind d < length argv" and "argv ! optind d = [CHR ''-'', x]"
    and "x \<in> {CHR ''f'', CHR ''h'', CHR ''q'', CHR ''v'', CHR ''V''}"
  shows "getopt_long argv sopt lopt d = (of_char x, d\<lparr>optind := optind d + 1\<rparr>)"
proof -
  have os: "(if take 1 sopt = ''-'' then tl sopt else sopt) = tl sopt" by (simp add: sopt_def)
  have x: "x \<noteq> CHR ''-''" using assms(4) by auto
  have ne: "\<not> length argv < 1" using assms(2) by auto
  have "getopt_long argv sopt lopt d = getopt_short argv (tl sopt) (d\<lparr>nextchar := [x]\<rparr>)"
    unfolding getopt_long_def Let_def os
    using assms(1-3) x ne by (simp add: NONOPTION_P_def)
  also from assms(4) consider "x = CHR ''f''" | "x = CHR ''h''" | "x = CHR ''q''" | "x = CHR ''v''" | "x = CHR ''V''"
    by blast
  then have "getopt_short argv (tl sopt) (d\<lparr>nextchar := [x]\<rparr>) = (of_char x, d\<lparr>optind := optind d + 1\<rparr>)"
    using assms(1) by cases (simp_all add: getopt_short_def sopt_def Let_def)
  finally show ?thesis .
qed

lemma getopt_long_long_flag:
  assumes "nextchar d = []" and "optind d < length argv" and "argv ! optind d = ''--'' @ name p"
    and "p \<in> set lopt"
  shows "getopt_long argv sopt lopt d = (val p, d\<lparr>optind := optind d + 1\<rparr>)"
proof -
  have os: "(if take 1 sopt = ''-'' then tl sopt else sopt) = tl sopt" by (simp add: sopt_def)
  have ne: "\<not> length argv < 1" using assms(2) by auto
  from assms(4) consider "p = lopt ! 0" | "p = lopt ! 1" | "p = lopt ! 2" | "p = lopt ! 3" | "p = lopt ! 4"
    by (auto simp: lopt_def)
  then have long: "process_long_option argv (tl sopt) lopt (d\<lparr>nextchar := name p\<rparr>) =
      (val p, d\<lparr>optind := optind d + 1\<rparr>)"
    using assms(1) by cases (simp_all add: process_long_option_def lopt_def Let_def)
  from assms(4) have nm: "name p \<noteq> []" by (auto simp: lopt_def)
  have "getopt_long argv sopt lopt d = process_long_option argv (tl sopt) lopt (d\<lparr>nextchar := name p\<rparr>)"
    unfolding getopt_long_def Let_def os
    using assms(1-3) ne nm by (simp add: NONOPTION_P_def)
  with long show ?thesis by simp
qed

lemma getopt_long_plain:
  assumes "nextchar d = []" and "optind d < length argv" and "plain_code (argv ! optind d) = Some c"
  shows "getopt_long argv sopt lopt d = (c, d\<lparr>optind := optind d + 1\<rparr>)"
proof -
  let ?t = "argv ! optind d"
  have os: "(if take 1 sopt = ''-'' then tl sopt else sopt) = tl sopt" by (simp add: sopt_def)
  have ne: "\<not> length argv < 1" using assms(2) by auto
  note short = getopt_long_short_flag [OF assms(1,2)]
  note long = getopt_long_long_flag [OF assms(1,2)]
  from assms(3) consider
      (c_f) "?t = ''-f''" "c = 102" | (c_force) "?t = ''--force''" "c = 102"
    | (c_h) "?t = ''-h''" "c = 104" | (c_help) "?t = ''--help''" "c = 104"
    | (c_q) "?t = ''-q''" "c = 113" | (c_quiet) "?t = ''--quiet''" "c = 113"
    | (c_v) "?t = ''-v''" "c = 118" | (c_verbose) "?t = ''--verbose''" "c = 118"
    | (c_V) "?t = ''-V''" "c = 86" | (c_version) "?t = ''--version''" "c = 86"
    | (c_nonopt) "NONOPTION_P ?t" "c = 1"
    unfolding plain_code_def
    by (auto split: if_splits)
  then show ?thesis
  proof cases
    case c_f
    with short [of "CHR ''f''"] show ?thesis by simp
  next
    case c_h
    with short [of "CHR ''h''"] show ?thesis by simp
  next
    case c_q
    with short [of "CHR ''q''"] show ?thesis by simp
  next
    case c_v
    with short [of "CHR ''v''"] show ?thesis by simp
  next
    case c_V
    with short [of "CHR ''V''"] show ?thesis by simp
  next
    case c_force
    with long [of "\<lparr>name = ''force'', has_arg = 0, val = 102\<rparr>"] show ?thesis
      by (simp add: lopt_def)
  next
    case c_help
    with long [of "\<lparr>name = ''help'', has_arg = 0, val = 104\<rparr>"] show ?thesis
      by (simp add: lopt_def)
  next
    case c_quiet
    with long [of "\<lparr>name = ''quiet'', has_arg = 0, val = 113\<rparr>"] show ?thesis
      by (simp add: lopt_def)
  next
    case c_verbose
    with long [of "\<lparr>name = ''verbose'', has_arg = 0, val = 118\<rparr>"] show ?thesis
      by (simp add: lopt_def)
  next
    case c_version
    with long [of "\<lparr>name = ''version'', has_arg = 0, val = 86\<rparr>"] show ?thesis
      by (simp add: lopt_def)
  next
    case c_nonopt
    from c_nonopt(1) have "?t \<noteq> ''--''" by (auto simp: NONOPTION_P_def)
    with c_nonopt assms(1,2) ne show ?thesis
      unfolding getopt_long_def Let_def os by simp
  qed
qed

lemma getopt_trace_plain:
  assumes "nextchar d = []" and "optind d \<le> length argv"
    and "\<forall>t \<in> set (drop (optind d) argv). plain_code t \<noteq> None"
  shows "map fst (getopt_trace argv d) = map (the \<circ> plain_code) (drop (optind d) argv)"
  using assms
proof (induction argv d rule: getopt_trace.induct)
  case (1 argv d)
  show ?case
  proof (cases "optind d = length argv")
    case True
    with "1.prems" have "getopt_long argv sopt lopt d = (- 1, d)"
      by (simp add: getopt_long_def Let_def)
    with True show ?thesis by (simp add: getopt_trace.simps [of argv d])
  next
    case False
    with "1.prems" have lt: "optind d < length argv" by simp
    then have drop: "drop (optind d) argv = argv ! optind d # drop (Suc (optind d)) argv"
      by (simp add: Cons_nth_drop_Suc)
    with "1.prems"(3) obtain c where c: "plain_code (argv ! optind d) = Some c" by auto
    from getopt_long_plain [OF "1.prems"(1) lt c]
    have r: "getopt_long argv sopt lopt d = (c, d\<lparr>optind := optind d + 1\<rparr>)" .
    have c1: "c \<noteq> - 1" using c by (auto simp: plain_code_def split: if_splits)
    from "1.prems" lt drop
    have "map fst (getopt_trace argv (d\<lparr>optind := optind d + 1\<rparr>)) =
        map (the \<circ> plain_code) (drop (optind (d\<lparr>optind := optind d + 1\<rparr>)) argv)"
      using "1.IH" r c1 by simp
    with r c1 c drop show ?thesis by (simp add: getopt_trace.simps [of argv d])
  qed
qed

lemma scan_codes_plain:
  assumes "argv \<noteq> []" and "\<forall>t \<in> set (tl argv). plain_code t \<noteq> None"
  shows "scan_codes argv = map (the \<circ> plain_code) (tl argv)"
  using getopt_trace_plain [of getopt_init argv] assms
  by (simp add: scan_codes_def getopt_init_def drop_Suc Suc_le_eq)

lemma no_nonoption_tokens:
  assumes "\<forall>i. 0 < i \<and> i < length argv \<longrightarrow> \<not> NONOPTION_P (argv ! i)"
  shows "1 \<notin> set (scan_codes argv)"
proof
  assume "1 \<in> set (scan_codes argv)"
  then obtain d where "(1, d) \<in> set (getopt_trace argv getopt_init)"
    by (auto simp: scan_codes_def)
  from getopt_trace_optind [OF this]
  have "0 < optind d - 1 \<and> optind d - 1 < length argv \<and> NONOPTION_P (argv ! (optind d - 1))"
    by (auto simp: getopt_init_def)
  with assms show False by blast
qed

subsection \<open>After the scan\<close>

lemma parse_options_scan:
  assumes "parse_events lp argv (getopt_trace argv getopt_init) (scan_start s0) = (l, s)"
  shows "parse_options lp argv s0 =
           (parse_result (fst (parse_check (length argv) (l, parse_sync s))),
            parse_print (parse_check (length argv) (l, parse_sync s)))"
  using assms
  by (simp add: parse_options_def parse_loop_trace scan_start_def Let_def split: prod.splits)

lemma parse_sync_frame:
  "device (opts (parse_sync s)) = device (opts s) \<and> log_out (parse_sync s) = log_out s \<and>
   calls (parse_sync s) = calls s \<and> levels (parse_sync s) = levels s \<and>
   quiet (opts s) \<le> quiet (opts (parse_sync s)) \<and> verbose (opts s) \<le> verbose (opts (parse_sync s))"
  by (simp add: parse_sync_def Let_def)




lemma parse_check_err:
  assumes "help' l = 0" "ver l = 0" "0 \<le> err l"
    and "device (opts s) = None \<or> (quiet (opts s) \<noteq> 0 \<and> verbose (opts s) \<noteq> 0)"
  shows "0 < err (fst (parse_check argc (l, s)))"
  using assms by (auto simp: parse_check_def Let_def)

lemma parse_check_mono:
  "err l \<le> err (fst (parse_check argc (l, s))) \<and> help' (fst (parse_check argc (l, s))) = help' l \<and>
   ver (fst (parse_check argc (l, s))) = ver l \<and> calls (snd (parse_check argc (l, s))) = calls s"
  by (auto simp: parse_check_def Let_def)





lemma scan_codes_set: "set (scan_codes argv) = fst ` set (getopt_trace argv getopt_init)"
  by (simp add: scan_codes_def)

lemma scan_codes_count:
  "length (filter (\<lambda>c. c = 1) (scan_codes argv)) =
   length (filter (\<lambda>e. fst e = 1) (getopt_trace argv getopt_init))"
  by (simp add: scan_codes_def filter_map o_def)








text \<open>A run from the initial state, with the facts the theorems need.\<close>

lemma initial_run:
  obtains l s where
    "parse_events lp argv (getopt_trace argv getopt_init) (scan_start (initial_state lv)) = (l, s)"
    "parse_options lp argv (initial_state lv) =
       (parse_result (fst (parse_check (length argv) (l, parse_sync s))),
        parse_print (parse_check (length argv) (l, parse_sync s)))"
    "0 \<le> err l" "0 \<le> help' l" "0 \<le> ver l" "0 \<le> quiet (opts s)" "0 \<le> verbose (opts s)"
proof -
  obtain l s where run:
    "parse_events lp argv (getopt_trace argv getopt_init) (scan_start (initial_state lv)) = (l, s)"
    by (cases "parse_events lp argv (getopt_trace argv getopt_init) (scan_start (initial_state lv))")
  have start: "scan_start (initial_state lv) = (fst (scan_start (initial_state lv)), snd (scan_start (initial_state lv)))"
    by simp
  from run have run': "parse_events lp argv (getopt_trace argv getopt_init)
      (fst (scan_start (initial_state lv)), snd (scan_start (initial_state lv))) = (l, s)"
    by simp
  from parse_events_mono [OF run'] have "0 \<le> err l" "0 \<le> help' l" "0 \<le> ver l"
    "0 \<le> quiet (opts s)" "0 \<le> verbose (opts s)"
    by (simp_all add: scan_start_def initial_state_def)
  with run parse_options_scan [OF run] that show ?thesis by blast
qed

lemma initial_run_pair:
  assumes "parse_events lp argv evs (scan_start (initial_state lv)) = (l, s)"
  shows "parse_events lp argv evs
           (\<lparr>err = 0, ver = 0, help' = 0\<rparr>,
            (initial_state lv)\<lparr>opts := (opts (initial_state lv))\<lparr>range_begin := - 1, range_end := - 1\<rparr>\<rparr>) = (l, s)"
  using assms by (simp add: scan_start_def)



subsection \<open>The external calls, scan errors and the banners\<close>














subsection \<open>The short options outside the usage text\<close>











section \<open>The claims\<close>

subsection \<open>The geometry reporter\<close>

text \<open>
  C1. The output of \<^verbatim>\<open>info\<close> on the handle of the specification's example, with sectors
  of 512 bytes, clusters of 4096 bytes, 1000 clusters and 65536 initialized bytes of
  MFT in records of 1024: seven lines with the values 512, 4096, 8, 4096000, 1000,
  125 and 64. The line labelled sectors per volume carries the cluster count, 1000
  and not 8000, and the line labelled clusters per volume carries the cluster count
  shifted right by the sectors-per-cluster exponent, 125 and not 1000.
\<close>

theorem info_example_output:
  "info (example_volume, []) = Some (0, example_volume,
     [Log_info ''bytes per sector        : %llu\<newline>'' [Arg_u64 512],
      Log_info ''bytes per cluster       : %llu\<newline>'' [Arg_u64 4096],
      Log_info ''sectors per cluster     : %llu\<newline>'' [Arg_u64 8],
      Log_info ''bytes per volume        : %llu\<newline>'' [Arg_u64 4096000],
      Log_info ''sectors per volume      : %llu\<newline>'' [Arg_u64 1000],
      Log_info ''clusters per volume     : %llu\<newline>'' [Arg_u64 125],
      Log_info ''initialized mft records : %llu\<newline>'' [Arg_u64 64]])"
  by (simp add: info_def example_volume_def c_shl_def c_shr_def ntfs_log_info_def
      signed_drop_bit_div)

text \<open>
  C4. On every handle on which its shifts are defined, \<^verbatim>\<open>info\<close> returns 0, leaves the
  handle as it was and appends exactly seven lines to the output, one value each,
  under the seven labels in this order. There are seven lines, not six.
\<close>

theorem info_prints_seven_lines:
  assumes "valid_handle vol"
  shows "\<exists>a b c d e f g. info (vol, out) = Some (0, vol, out @
     [Log_info ''bytes per sector        : %llu\<newline>'' [Arg_u64 a],
      Log_info ''bytes per cluster       : %llu\<newline>'' [Arg_u64 b],
      Log_info ''sectors per cluster     : %llu\<newline>'' [Arg_u64 c],
      Log_info ''bytes per volume        : %llu\<newline>'' [Arg_u64 d],
      Log_info ''sectors per volume      : %llu\<newline>'' [Arg_u64 e],
      Log_info ''clusters per volume     : %llu\<newline>'' [Arg_u64 f],
      Log_info ''initialized mft records : %llu\<newline>'' [Arg_u64 g]])"
  using info_valid [OF assms, of out]
  by (simp add: geometry_lines_def info_values_def)

theorem info_prints_seven_lines_witness:
  "valid_handle example_volume \<and>
   (\<exists>a b c d e f g. info (example_volume, []) = Some (0, example_volume, [] @
     [Log_info ''bytes per sector        : %llu\<newline>'' [Arg_u64 a],
      Log_info ''bytes per cluster       : %llu\<newline>'' [Arg_u64 b],
      Log_info ''sectors per cluster     : %llu\<newline>'' [Arg_u64 c],
      Log_info ''bytes per volume        : %llu\<newline>'' [Arg_u64 d],
      Log_info ''sectors per volume      : %llu\<newline>'' [Arg_u64 e],
      Log_info ''clusters per volume     : %llu\<newline>'' [Arg_u64 f],
      Log_info ''initialized mft records : %llu\<newline>'' [Arg_u64 g]]))"
  using info_prints_seven_lines [OF valid_example, of "[]"] valid_example by blast

text \<open>On the handle of the example the output has seven lines.\<close>

theorem info_six_lines_counterexample:
  "map_option (\<lambda>(r, v, out). length out) (info (example_volume, [])) = Some 7 \<and>
   map_option (\<lambda>(r, v, out). length out) (info (example_volume, [])) \<noteq> Some 6"
  by (simp add: info_def example_volume_def c_shl_def c_shr_def ntfs_log_info_def
      signed_drop_bit_div)



text \<open>
  C8. \<^verbatim>\<open>info\<close> is a function of the handle: it returns 0, the handle unchanged and the
  output extended by lines that depend on the handle alone, or it is undefined,
  whatever the output so far. Called again on the handle it returned, it returns the
  same status and appends the same lines again.
\<close>

theorem info_pure:
  "info (vol, out) =
     (if valid_handle vol then Some (0, vol, out @ geometry_lines (info_values vol)) else None) \<and>
   (info (vol, out) = Some (r, vol', out') \<longrightarrow>
      vol' = vol \<and> info (vol', out') = Some (r, vol', out' @ drop (length out) out'))"
  by (cases "valid_handle vol") (auto simp: info_valid info_invalid)

theorem info_pure_witness:
  "info (example_volume, []) = Some (0, example_volume, geometry_lines (info_values example_volume)) \<and>
   info (example_volume, geometry_lines (info_values example_volume)) =
     Some (0, example_volume,
       geometry_lines (info_values example_volume) @ geometry_lines (info_values example_volume))"
proof -
  have h: "info (example_volume, []) =
      Some (0, example_volume, geometry_lines (info_values example_volume))"
    using info_valid [OF valid_example, of "[]"] by simp
  from info_pure [of example_volume "[]" 0 example_volume "geometry_lines (info_values example_volume)"] h
  show ?thesis by simp
qed

subsection \<open>The option parser\<close>




text \<open>
  C3. When the scan reports a quiet and a verbose option and neither help nor
  version, \<^verbatim>\<open>parse_options\<close> yields 1.
\<close>

theorem quiet_and_verbose_fail:
  assumes "of_char CHR ''q'' \<in> set (scan_codes argv)" and "of_char CHR ''v'' \<in> set (scan_codes argv)"
    and "of_char CHR ''h'' \<notin> set (scan_codes argv)" and "of_char CHR ''V'' \<notin> set (scan_codes argv)"
  shows "fst (parse_options lp argv (initial_state lv)) = 1"
proof -
  obtain l s where run: "parse_events lp argv (getopt_trace argv getopt_init) (scan_start (initial_state lv)) = (l, s)"
    and po: "parse_options lp argv (initial_state lv) =
       (parse_result (fst (parse_check (length argv) (l, parse_sync s))),
        parse_print (parse_check (length argv) (l, parse_sync s)))"
    and nonneg: "0 \<le> err l"
    by (rule initial_run)
  note run' = initial_run_pair [OF run]
  from assms(1,2) obtain dq dv where
    "(113, dq) \<in> set (getopt_trace argv getopt_init)" "(118, dv) \<in> set (getopt_trace argv getopt_init)"
    by (auto simp: scan_codes_set)
  from parse_events_counted [OF this(1) run'] parse_events_counted [OF this(2) run']
  have "0 < quiet (opts s)" "0 < verbose (opts s)" by (simp_all add: initial_state_def)
  with parse_sync_frame [of s]
  have qv: "quiet (opts (parse_sync s)) \<noteq> 0 \<and> verbose (opts (parse_sync s)) \<noteq> 0" by auto
  from assms(3,4) parse_events_frame [OF run'] have hv: "help' l = 0" "ver l = 0"
    by (simp_all add: scan_codes_set)
  from parse_check_err [OF hv nonneg, of "parse_sync s" "length argv"] qv
  show ?thesis by (simp add: po parse_result_def)
qed

theorem quiet_and_verbose_fail_witness:
  "of_char CHR ''q'' \<in> set (scan_codes [''ntfsvolume'', ''-q'', ''--verbose'', ''/dev/sda1'']) \<and>
   of_char CHR ''v'' \<in> set (scan_codes [''ntfsvolume'', ''-q'', ''--verbose'', ''/dev/sda1'']) \<and>
   fst (parse_options no_log_options [''ntfsvolume'', ''-q'', ''--verbose'', ''/dev/sda1'']
          (initial_state ntfs_log_default_levels)) = 1"
proof -
  let ?A = "[''ntfsvolume'', ''-q'', ''--verbose'', ''/dev/sda1'']"
  have codes: "scan_codes ?A = [113, 118, 1]" by code_simp
  have h: "of_char CHR ''q'' \<in> set (scan_codes ?A)" "of_char CHR ''v'' \<in> set (scan_codes ?A)"
    "of_char CHR ''h'' \<notin> set (scan_codes ?A)" "of_char CHR ''V'' \<notin> set (scan_codes ?A)"
    by (simp_all add: codes)
  from quiet_and_verbose_fail [OF h, of no_log_options ntfs_log_default_levels] h(1,2)
  show ?thesis by blast
qed

text \<open>With \<^verbatim>\<open>-q -v -h\<close> the check is skipped and the outcome is success.\<close>

theorem quiet_verbose_help_counterexample:
  "of_char CHR ''q'' \<in> set (scan_codes [''ntfsvolume'', ''-q'', ''-v'', ''-h'']) \<and>
   of_char CHR ''v'' \<in> set (scan_codes [''ntfsvolume'', ''-q'', ''-v'', ''-h'']) \<and>
   fst (parse_options no_log_options [''ntfsvolume'', ''-q'', ''-v'', ''-h'']
          (initial_state ntfs_log_default_levels)) = 0"
  by code_simp




text \<open>
  C7. When the scan reports no non-option element and neither help nor version,
  \<^verbatim>\<open>parse_options\<close> yields 1. A non-option element that finds the device set clears
  the device and adds one to the error count. When the scan reports two or more
  non-option elements, \<^verbatim>\<open>parse_options\<close> yields 1.
\<close>

theorem exactly_one_device:
  "(1 \<notin> set (scan_codes argv) \<and> of_char CHR ''h'' \<notin> set (scan_codes argv) \<and>
      of_char CHR ''V'' \<notin> set (scan_codes argv) \<longrightarrow>
        fst (parse_options lp argv (initial_state lv)) = 1) \<and>
   (device (opts s) \<noteq> None \<longrightarrow>
        parse_case lp argv 1 d (l, s) = (l\<lparr>err := err l + 1\<rparr>, s\<lparr>opts := (opts s)\<lparr>device := None\<rparr>\<rparr>)) \<and>
   (2 \<le> length (filter (\<lambda>c. c = 1) (scan_codes argv)) \<longrightarrow>
        fst (parse_options lp argv (initial_state lv)) = 1)"
proof -
  obtain l1 s1 where run: "parse_events lp argv (getopt_trace argv getopt_init) (scan_start (initial_state lv)) = (l1, s1)"
    and po: "parse_options lp argv (initial_state lv) =
       (parse_result (fst (parse_check (length argv) (l1, parse_sync s1))),
        parse_print (parse_check (length argv) (l1, parse_sync s1)))"
    and nonneg: "0 \<le> err l1"
    by (rule initial_run)
  note run' = initial_run_pair [OF run]
  have none: "fst (parse_options lp argv (initial_state lv)) = 1"
    if "1 \<notin> set (scan_codes argv)" "of_char CHR ''h'' \<notin> set (scan_codes argv)"
      "of_char CHR ''V'' \<notin> set (scan_codes argv)"
  proof -
    from that parse_events_frame [OF run'] have "help' l1 = 0" "ver l1 = 0" "device (opts s1) = None"
      by (simp_all add: scan_codes_set initial_state_def)
    with parse_check_err [OF this(1,2) nonneg, of "parse_sync s1" "length argv"] parse_sync_frame [of s1]
    show ?thesis by (simp add: po parse_result_def)
  qed
  have two: "fst (parse_options lp argv (initial_state lv)) = 1"
    if "2 \<le> length (filter (\<lambda>c. c = 1) (scan_codes argv))"
  proof -
    from that have "2 \<le> length (filter (\<lambda>e. fst e = 1) (getopt_trace argv getopt_init))"
      by (simp add: scan_codes_count)
    from parse_events_second_nonopt [OF this run'] have "0 < err l1" by simp
    with parse_check_mono [of l1 "length argv" "parse_sync s1"] show ?thesis
      by (simp add: po parse_result_def)
  qed
  from none two show ?thesis by (auto simp: parse_case_nonopt)
qed

theorem exactly_one_device_witness:
  "fst (parse_options no_log_options [''ntfsvolume'', ''-f''] (initial_state ntfs_log_default_levels)) = 1 \<and>
   parse_case no_log_options [''ntfsvolume'', ''a'', ''b''] 1 \<lparr>optind = 3, nextchar = []\<rparr>
     (\<lparr>err = 0, ver = 0, help' = 0\<rparr>,
      (initial_state ntfs_log_default_levels)
        \<lparr>opts := (opts (initial_state ntfs_log_default_levels))\<lparr>device := Some ''a''\<rparr>\<rparr>) =
     (\<lparr>err = 1, ver = 0, help' = 0\<rparr>, initial_state ntfs_log_default_levels) \<and>
   fst (parse_options no_log_options [''ntfsvolume'', ''a'', ''b''] (initial_state ntfs_log_default_levels)) = 1"
proof -
  let ?s = "(initial_state ntfs_log_default_levels)
        \<lparr>opts := (opts (initial_state ntfs_log_default_levels))\<lparr>device := Some ''a''\<rparr>\<rparr>"
  have c1: "scan_codes [''ntfsvolume'', ''-f''] = [102]" by code_simp
  have c2: "scan_codes [''ntfsvolume'', ''a'', ''b''] = [1, 1]" by code_simp
  have dev: "device (opts ?s) \<noteq> None" by simp
  note t1 = exactly_one_device [of "[''ntfsvolume'', ''-f'']" no_log_options ntfs_log_default_levels]
  note t2 = exactly_one_device [of "[''ntfsvolume'', ''a'', ''b'']" no_log_options
      ntfs_log_default_levels ?s "\<lparr>optind = 3, nextchar = []\<rparr>" "\<lparr>err = 0, ver = 0, help' = 0\<rparr>"]
  from t1 have "fst (parse_options no_log_options [''ntfsvolume'', ''-f'']
      (initial_state ntfs_log_default_levels)) = 1"
    by (simp add: c1)
  moreover from t2 dev have "parse_case no_log_options [''ntfsvolume'', ''a'', ''b''] 1
      \<lparr>optind = 3, nextchar = []\<rparr> (\<lparr>err = 0, ver = 0, help' = 0\<rparr>, ?s) =
      (\<lparr>err = 1, ver = 0, help' = 0\<rparr>, initial_state ntfs_log_default_levels)"
    by (simp add: initial_state_def)
  moreover from t2 have "fst (parse_options no_log_options [''ntfsvolume'', ''a'', ''b'']
      (initial_state ntfs_log_default_levels)) = 1"
    by (simp add: c2)
  ultimately show ?thesis by blast
qed







end
